theory Spec2Isabelle
  imports Complex_Main "HOL-Library.Log_Nat"
begin

section \<open>Python values, errors and dictionaries\<close>

text \<open>
  The adapter (\<^verbatim>\<open>aw_datastore/storages/influxdb.py\<close>) moves scalar values between
  event objects and backend records. A scalar is one of Python's \<^verbatim>\<open>None\<close>, a bool,
  an int, a float or a str. A float is an IEEE 754 double; \<open>PFloat\<close> carries the exact
  value of the double, a rational (no operation of the adapter yields an infinity or a
  NaN). A str is the list of its code points, each below 256.
\<close>

datatype pyval = PNone | PBool bool | PInt int | PFloat rat | PStr string

text \<open>
  The exceptions the adapter's code can raise, and the two error kinds the specification
  names for a metadata lookup (the adapter itself never raises those two).
\<close>

datatype error =
    KeyError | IndexError | ValueError | TypeError | OverflowError | StopIteration
  | NotFoundError | IntegrityError

definition bind_err :: "error + 'a \<Rightarrow> ('a \<Rightarrow> error + 'b) \<Rightarrow> error + 'b" where
  "bind_err m f = (case m of Inl e \<Rightarrow> Inl e | Inr x \<Rightarrow> f x)"

text \<open>Python's truth value of a scalar (\<^verbatim>\<open>if event[key]:\<close>).\<close>

fun truthy :: "pyval \<Rightarrow> bool" where
  "truthy PNone = False"
| "truthy (PBool b) = b"
| "truthy (PInt n) = (n \<noteq> 0)"
| "truthy (PFloat q) = (q \<noteq> 0)"
| "truthy (PStr s) = (s \<noteq> [])"

text \<open>
  A Python dict is an association list in insertion order. \<^verbatim>\<open>d[k]\<close> raises
  \<^verbatim>\<open>KeyError\<close> on a missing key; \<^verbatim>\<open>d[k] = v\<close> overwrites in place or appends.
\<close>

type_synonym dict = "(string \<times> pyval) list"

definition dict_get :: "dict \<Rightarrow> string \<Rightarrow> error + pyval" where
  "dict_get d k = (case map_of d k of None \<Rightarrow> Inl KeyError | Some v \<Rightarrow> Inr v)"

fun dict_set :: "dict \<Rightarrow> string \<Rightarrow> pyval \<Rightarrow> dict" where
  "dict_set [] k v = [(k, v)]"
| "dict_set ((k', v') # d) k v =
     (if k' = k then (k, v) # d else (k', v') # dict_set d k v)"

definition dict_keys :: "dict \<Rightarrow> string list" where
  "dict_keys d = map fst d"

subsection \<open>\<^verbatim>\<open>int(x)\<close> on a scalar\<close>

text \<open>
  \<^verbatim>\<open>int\<close> of a str strips white space, reads an optional sign and then decimal digits,
  where single underscores may separate digits; anything else is a \<^verbatim>\<open>ValueError\<close>.
  The white space \<^verbatim>\<open>int\<close> strips is the C locale's (tab to carriage return, and the
  space) and, of the code points from 127 on, those Unicode calls white space: below 256
  these are 0x85 and 0xA0. The separators 0x1C to 0x1F are not stripped. The only decimal
  digits below 256 are the ASCII ones.
\<close>

definition is_space :: "char \<Rightarrow> bool" where
  "is_space c =
     (let n = (of_char c :: nat) in (9 \<le> n \<and> n \<le> 13) \<or> n = 32 \<or> n = 133 \<or> n = 160)"

definition strip :: "string \<Rightarrow> string" where
  "strip s = rev (dropWhile is_space (rev (dropWhile is_space s)))"

definition digit_val :: "char \<Rightarrow> nat option" where
  "digit_val c = (let n = (of_char c :: nat) in if 48 \<le> n \<and> n \<le> 57 then Some (n - 48) else None)"

fun parse_digits :: "nat \<Rightarrow> string \<Rightarrow> nat option" where
  "parse_digits acc [] = Some acc"
| "parse_digits acc [c] =
     (case digit_val c of None \<Rightarrow> None | Some v \<Rightarrow> Some (10 * acc + v))"
| "parse_digits acc (c # d # ds) =
     (if c = CHR ''_'' then
        (case digit_val d of None \<Rightarrow> None | Some v \<Rightarrow> parse_digits (10 * acc + v) ds)
      else
        (case digit_val c of None \<Rightarrow> None | Some v \<Rightarrow> parse_digits (10 * acc + v) (d # ds)))"

definition parse_nat :: "string \<Rightarrow> nat option" where
  "parse_nat s =
     (case s of [] \<Rightarrow> None
      | c # cs \<Rightarrow> (case digit_val c of None \<Rightarrow> None | Some v \<Rightarrow> parse_digits v cs))"

definition int_of_str :: "string \<Rightarrow> int option" where
  "int_of_str s =
     (case strip s of
        [] \<Rightarrow> None
      | c # cs \<Rightarrow>
          if c = CHR ''-'' then map_option (\<lambda>n. - int n) (parse_nat cs)
          else if c = CHR ''+'' then map_option int (parse_nat cs)
          else map_option int (parse_nat (c # cs)))"

text \<open>\<^verbatim>\<open>int\<close> of a float truncates towards zero.\<close>

definition trunc :: "rat \<Rightarrow> int" where
  "trunc q = (if 0 \<le> q then \<lfloor>q\<rfloor> else \<lceil>q\<rceil>)"

fun py_int :: "pyval \<Rightarrow> error + int" where
  "py_int PNone = Inl TypeError"
| "py_int (PBool b) = Inr (if b then 1 else 0)"
| "py_int (PInt n) = Inr n"
| "py_int (PFloat q) = Inr (trunc q)"
| "py_int (PStr s) = (case int_of_str s of None \<Rightarrow> Inl ValueError | Some n \<Rightarrow> Inr n)"

section \<open>Floats\<close>

text \<open>
  An arithmetic operation on doubles returns the double nearest to the exact result, with
  ties going to the even significand. \<open>to_double\<close> is that rounding: the significand has
  53 bits, so a result \<open>q\<close> with \<open>2 ^ k \<le> \<bar>q\<bar> < 2 ^ (k + 1)\<close> is rounded to a multiple of
  \<open>2 ^ (k - 52)\<close>, and to a multiple of \<open>2 ^ - 1074\<close> in the subnormal range. Overflow is
  left out: no result in this development reaches \<open>2 ^ 1024\<close>.
\<close>

definition pow2 :: "int \<Rightarrow> rat" where
  "pow2 e = (if 0 \<le> e then 2 ^ nat e else 1 / 2 ^ nat (- e))"

text \<open>For \<open>q > 0\<close>, the \<open>k\<close> with \<open>2 ^ k \<le> q < 2 ^ (k + 1)\<close>.\<close>

definition floor_log2 :: "rat \<Rightarrow> int" where
  "floor_log2 q =
     (let k = bitlen (fst (quotient_of q)) - bitlen (snd (quotient_of q))
      in if pow2 k \<le> q then k else k - 1)"

text \<open>The nearest integer, ties to the even one.\<close>

definition round_half_even :: "rat \<Rightarrow> int" where
  "round_half_even q =
     (let f = \<lfloor>q\<rfloor>; r = q - of_int f
      in if r < 1 / 2 then f else if 1 / 2 < r then f + 1 else if even f then f else f + 1)"

definition to_double :: "rat \<Rightarrow> rat" where
  "to_double q =
     (if q = 0 then 0
      else let e = max (floor_log2 \<bar>q\<bar> - 52) (- 1074);
               m = round_half_even (\<bar>q\<bar> / pow2 e)
           in (if q < 0 then - 1 else 1) * of_int m * pow2 e)"

text \<open>C's \<^verbatim>\<open>round\<close>: the nearest integer, ties away from zero.\<close>

definition c_round :: "rat \<Rightarrow> int" where
  "c_round r = (if 0 \<le> r then \<lfloor>r + 1 / 2\<rfloor> else - \<lfloor>- r + 1 / 2\<rfloor>)"

section \<open>Events\<close>

text \<open>
  A \<^verbatim>\<open>datetime\<close> is held as its offset from 1970-01-01T00:00:00Z in milliseconds, the
  adapter's fixed \<^verbatim>\<open>time_precision\<close>; the part of a timestamp below one millisecond,
  which the backend does not keep at that precision, is left out. A \<^verbatim>\<open>timedelta\<close>
  is its whole number of microseconds, as Python holds it.
\<close>

type_synonym datetime = int
type_synonym timedelta = int

text \<open>Python's \<^verbatim>\<open>datetime\<close> covers the years 1 to 9999.\<close>

definition datetime_min :: datetime where
  "datetime_min = - 62135596800000"

definition datetime_max :: datetime where
  "datetime_max = 253402300799999"

definition valid_datetime :: "datetime \<Rightarrow> bool" where
  "valid_datetime t = (datetime_min \<le> t \<and> t \<le> datetime_max)"

text \<open>A \<^verbatim>\<open>timedelta\<close> lies between -999999999 days and 999999999 days, 23:59:59.999999.\<close>

definition timedelta_min :: timedelta where
  "timedelta_min = - 86399999913600000000"

definition timedelta_max :: timedelta where
  "timedelta_max = 86399999999999999999"

definition valid_timedelta :: "timedelta \<Rightarrow> bool" where
  "valid_timedelta d = (timedelta_min \<le> d \<and> d \<le> timedelta_max)"

text \<open>\<^verbatim>\<open>datetime(1970, 1, 1, tzinfo=timezone.utc) + timedelta(milliseconds=epoch)\<close>\<close>

definition datetime_of_epoch :: "int \<Rightarrow> error + datetime" where
  "datetime_of_epoch epoch = (if valid_datetime epoch then Inr epoch else Inl OverflowError)"

text \<open>
  \<^verbatim>\<open>td.total_seconds()\<close>: the true division of the microseconds by one million, which
  for two ints is the double nearest to the quotient.
\<close>

definition total_seconds :: "timedelta \<Rightarrow> pyval" where
  "total_seconds d = PFloat (to_double (of_int d / 1000000))"

text \<open>
  \<^verbatim>\<open>timedelta(seconds=x)\<close> for a float \<open>x\<close>, as CPython computes it. The integer part of
  \<open>x\<close> gives whole microseconds exactly. The fractional part is multiplied by one
  million in double arithmetic; the integer part of that product is added, and what is
  left of it is rounded to the nearest microsecond with C's \<^verbatim>\<open>round\<close>, except that an
  exact half goes to the side that makes the total even.
\<close>

definition round_leftover :: "int \<Rightarrow> rat \<Rightarrow> int" where
  "round_leftover y leftover_us =
     (if leftover_us = 0 then y
      else let whole_us = c_round leftover_us;
               whole_us =
                 (if \<bar>of_int whole_us - leftover_us\<bar> = 1 / 2
                  then (let x_is_odd = y mod 2
                        in 2 * c_round ((leftover_us + of_int x_is_odd) * (1 / 2)) - x_is_odd)
                  else whole_us)
           in y + whole_us)"

definition timedelta_of_float :: "rat \<Rightarrow> int" where
  "timedelta_of_float x =
     (let intpart = trunc x; fracpart = x - of_int intpart; sum = intpart * 1000000
      in if fracpart = 0 then sum
         else let dnum = to_double (1000000 * fracpart);
                  intpart2 = trunc dnum;
                  fracpart2 = dnum - of_int intpart2
              in round_leftover (sum + intpart2) fracpart2)"

record Event =
  id_ev :: pyval
  timestamp :: datetime
  duration :: timedelta
  data :: dict

text \<open>
  Modelled from the spec: the class \<^verbatim>\<open>Event\<close> of \<^verbatim>\<open>aw_core.models\<close>, whose file is not
  among the sources. The specification describes an event as an id, a timestamp, a
  duration that is a time span, and an open bag of attributes, and says the decoder sets
  the event's duration from the record's \<^verbatim>\<open>duration\<close> field, a number of seconds. So
  the constructor keeps id, timestamp and attributes as given and turns a number of
  seconds into the time span \<^verbatim>\<open>timedelta(seconds=x)\<close>; a value that is not a number is
  a \<^verbatim>\<open>TypeError\<close>.
\<close>

definition timedelta_of_seconds :: "pyval \<Rightarrow> error + timedelta" where
  "timedelta_of_seconds x =
     (case (case x of
              PInt n \<Rightarrow> Some (n * 1000000)
            | PFloat q \<Rightarrow> Some (timedelta_of_float q)
            | PBool b \<Rightarrow> Some (if b then 1000000 else 0)
            | _ \<Rightarrow> None) of
        None \<Rightarrow> Inl TypeError
      | Some d \<Rightarrow> if valid_timedelta d then Inr d else Inl OverflowError)"

definition Event_init :: "pyval \<Rightarrow> datetime \<Rightarrow> pyval \<Rightarrow> dict \<Rightarrow> error + Event" where
  "Event_init i ts d dat =
     bind_err (timedelta_of_seconds d)
       (\<lambda>td. Inr \<lparr>id_ev = i, timestamp = ts, duration = td, data = dat\<rparr>)"

section \<open>The event codec\<close>

text \<open>
  A point is the dict that \<^verbatim>\<open>_event_parser_to\<close> builds and \<^verbatim>\<open>write_points\<close> takes: its
  four keys are always \<^verbatim>\<open>measurement\<close>, \<^verbatim>\<open>tags\<close>, \<^verbatim>\<open>time\<close> and \<^verbatim>\<open>fields\<close>, in that
  order (the selector of the last is \<open>pfields\<close>: the record package keeps the name
  \<open>fields\<close> for itself).
\<close>

record point =
  measurement :: string
  tags :: dict
  time :: datetime
  pfields :: dict

definition point_keys :: "point \<Rightarrow> string list" where
  "point_keys p = [''measurement'', ''tags'', ''time'', ''fields'']"

text \<open>\<^verbatim>\<open>self.tags = ("app", "status")\<close>\<close>

definition self_tags :: "string list" where
  "self_tags = [''app'', ''status'']"

text \<open>
  \<^verbatim>\<open>_event_parser_to\<close>. The loop over \<^verbatim>\<open>event.data\<close> copies every attribute into the
  fields, and those named in \<^verbatim>\<open>self.tags\<close> also into the tags under the prefix
  \<^verbatim>\<open>_\<close>. (Isabelle names cannot begin with an underscore, so the leading one of the
  source's private names is dropped.)
\<close>

fun to_loop :: "dict \<Rightarrow> string list \<Rightarrow> point \<Rightarrow> point" where
  "to_loop event_data [] pt = pt"
| "to_loop event_data (key # keys) pt =
     (case map_of event_data key of
        None \<Rightarrow> to_loop event_data keys pt
      | Some v \<Rightarrow>
          to_loop event_data keys
            (let pt1 = (if key \<in> set self_tags
                        then pt\<lparr>tags := dict_set (tags pt) (CHR ''_'' # key) v\<rparr> else pt)
             in pt1\<lparr>pfields := dict_set (pfields pt1) key v\<rparr>))"

definition event_parser_to :: "string \<Rightarrow> Event \<Rightarrow> point" where
  "event_parser_to bucket_id event =
     (let pt = \<lparr>measurement = bucket_id, tags = [], time = timestamp event,
                pfields = [(''id'', id_ev event)]\<rparr>;
          pt = pt\<lparr>pfields := dict_set (pfields pt) ''duration'' (total_seconds (duration event))\<rparr>
      in to_loop (data event) (dict_keys (data event)) pt)"

text \<open>
  \<^verbatim>\<open>_event_parser_from\<close>, one record at a time. The inner loop visits every key of the
  record; \<^verbatim>\<open>key[0]\<close> raises \<^verbatim>\<open>IndexError\<close> on an empty key.
\<close>

fun from_loop :: "dict \<Rightarrow> string list \<Rightarrow> dict \<Rightarrow> error + dict" where
  "from_loop event [] mapped_data = Inr mapped_data"
| "from_loop event (key # keys) mapped_data =
     (if key \<noteq> ''time'' \<and> key \<noteq> ''duration'' then
        (case key of
           [] \<Rightarrow> Inl IndexError
         | c # _ \<Rightarrow>
             if c \<noteq> CHR ''_'' then
               bind_err (dict_get event key)
                 (\<lambda>v. if truthy v then from_loop event keys (dict_set mapped_data key v)
                      else from_loop event keys mapped_data)
             else from_loop event keys mapped_data)
      else from_loop event keys mapped_data)"

definition from_one :: "dict \<Rightarrow> error + Event" where
  "from_one event =
     bind_err (dict_get event ''time'') (\<lambda>t.
     bind_err (py_int t) (\<lambda>epoch.
     bind_err (datetime_of_epoch epoch) (\<lambda>final_datetime.
     bind_err (dict_get event ''duration'') (\<lambda>d.
     bind_err (Event_init t final_datetime d []) (\<lambda>mapped.
     bind_err (from_loop event (dict_keys event) (data mapped)) (\<lambda>dat.
     Inr (mapped\<lparr>data := dat\<rparr>)))))))"

fun event_parser_from :: "dict list \<Rightarrow> error + Event list" where
  "event_parser_from [] = Inr []"
| "event_parser_from (event # rest) =
     bind_err (from_one event) (\<lambda>mapped.
     bind_err (event_parser_from rest) (\<lambda>results. Inr (mapped # results)))"

section \<open>The backend\<close>

text \<open>
  Modelled from the spec: the time-series backend behind \<^verbatim>\<open>self.db\<close> (the client
  library and its server), an external collaborator that no source file holds. The
  specification describes it as a point-write and query service in which a series is a
  named stream of points, a point is one record of a series keyed by its timestamp, and
  a write at a timestamp the series already holds replaces that record (the later write
  wins). The state of the backend is therefore the list of points of every measurement,
  with at most one point per timestamp after a write.
\<close>

type_synonym influxdb = "string \<Rightarrow> point list"

definition write_point :: "point \<Rightarrow> influxdb \<Rightarrow> influxdb" where
  "write_point p db =
     db (measurement p := filter (\<lambda>q. time q \<noteq> time p) (db (measurement p)) @ [p])"

definition write_points :: "influxdb \<Rightarrow> point list \<Rightarrow> influxdb" where
  "write_points db points = fold write_point points db"

text \<open>
  Modelled from the spec: the record a \<^verbatim>\<open>SELECT *\<close> yields for a stored point, a dict
  with the point's fields and tags as columns and the key \<^verbatim>\<open>time\<close> holding the
  timestamp as an integer offset in the query's epoch precision.
\<close>

definition dict_update :: "dict \<Rightarrow> dict \<Rightarrow> dict" where
  "dict_update d kvs = fold (\<lambda>kv acc. dict_set acc (fst kv) (snd kv)) kvs d"

definition row_of :: "point \<Rightarrow> dict" where
  "row_of p = dict_set (dict_update (dict_update [] (pfields p)) (tags p)) ''time'' (PInt (time p))"

text \<open>
  The statements the adapter sends, one constructor for each shape of query text it
  formats:
  \<^item> \<open>Select_where_tag m t v\<close> is \<^verbatim>\<open>SELECT * FROM "m" WHERE "t" = 'v'\<close>;
  \<^item> \<open>Select_range m s e n\<close> is \<^verbatim>\<open>SELECT * FROM "m" WHERE time >= 's' AND time <= 'e' ORDER BY time DESC LIMIT n\<close>,
    where each of the two comparisons and the limit clause is present only when the
    argument is \<open>Some\<close>;
  \<^item> \<open>Select_count m f\<close> is \<^verbatim>\<open>SELECT COUNT (f) FROM "m"\<close>;
  \<^item> \<open>Select_last m f\<close> is \<^verbatim>\<open>SELECT last(f) FROM "m"\<close>;
  \<^item> \<open>Delete_where m f v\<close> is \<^verbatim>\<open>DELETE FROM "m" WHERE "f" = v LIMIT 1\<close>.
\<close>

datatype influxql =
    Select_where_tag string string string
  | Select_range string "datetime option" "datetime option" "int option"
  | Select_count string string
  | Select_last string string
  | Delete_where string string pyval

text \<open>A point has a field when the field is present and not null.\<close>

definition has_field :: "string \<Rightarrow> point \<Rightarrow> bool" where
  "has_field f p = (case map_of (pfields p) f of None \<Rightarrow> False | Some v \<Rightarrow> v \<noteq> PNone)"

definition in_range :: "datetime option \<Rightarrow> datetime option \<Rightarrow> point \<Rightarrow> bool" where
  "in_range s e p =
     ((case s of None \<Rightarrow> True | Some t \<Rightarrow> t \<le> time p) \<and>
      (case e of None \<Rightarrow> True | Some t \<Rightarrow> time p \<le> t))"

fun remove_first :: "('a \<Rightarrow> bool) \<Rightarrow> 'a list \<Rightarrow> 'a list" where
  "remove_first P [] = []"
| "remove_first P (x # xs) = (if P x then xs else x # remove_first P xs)"

text \<open>
  Modelled from the spec: what the backend answers. Records come in ascending time
  order unless the statement orders them descending; a limit clause keeps the first
  \<open>n\<close> records; the count and last-value queries look at the points whose field is not
  null, answer nothing when there is none, and the last-value record carries the time
  key of the point it selects; the delete removes at most one point whose field equals
  the value.
\<close>

fun query :: "influxdb \<Rightarrow> influxql \<Rightarrow> influxdb \<times> dict list" where
  "query db (Select_where_tag m t v) =
     (db, map row_of (filter (\<lambda>p. map_of (tags p) t = Some (PStr v)) (sort_key time (db m))))"
| "query db (Select_range m s e n) =
     (let ps = rev (sort_key time (filter (in_range s e) (db m)))
      in (db, map row_of (case n of None \<Rightarrow> ps | Some k \<Rightarrow> take (nat k) ps)))"
| "query db (Select_count m f) =
     (let c = length (filter (has_field f) (db m))
      in (db, if c = 0 then [] else [[(''time'', PInt 0), (''count'', PInt (int c))]]))"
| "query db (Select_last m f) =
     (db, case rev (sort_key time (filter (has_field f) (db m))) of
            [] \<Rightarrow> []
          | p # _ \<Rightarrow> [[(''time'', PInt (time p)),
                        (''last'', case map_of (pfields p) f of None \<Rightarrow> PNone | Some v \<Rightarrow> v)]])"
| "query db (Delete_where m f v) =
     (db (m := remove_first (\<lambda>p. map_of (pfields p) f = Some v) (sort_key time (db m))), [])"

section \<open>The storage adapter\<close>

text \<open>
  Every method takes the backend's state where the source reads \<^verbatim>\<open>self.db\<close>, and
  returns the new state where it writes. A raised exception is \<open>Inl\<close>.
\<close>

text \<open>\<^verbatim>\<open>get_metadata\<close>: \<^verbatim>\<open>next(generator)\<close> raises \<^verbatim>\<open>StopIteration\<close> on no record.\<close>

definition get_metadata :: "influxdb \<Rightarrow> string \<Rightarrow> error + dict" where
  "get_metadata db bucket_id =
     (case snd (query db (Select_where_tag ''metadata'' ''id'' bucket_id)) of
        [] \<Rightarrow> Inl StopIteration
      | metadata # _ \<Rightarrow> Inr metadata)"

text \<open>
  \<^verbatim>\<open>get_events\<close>. A \<^verbatim>\<open>datetime\<close> is always true in Python, so \<^verbatim>\<open>if starttime\<close> asks
  whether a bound was given; \<^verbatim>\<open>if limit and limit > -1\<close> is false for the limit 0.
\<close>

definition get_events ::
  "influxdb \<Rightarrow> string \<Rightarrow> int \<Rightarrow> datetime option \<Rightarrow> datetime option \<Rightarrow> error + Event list" where
  "get_events db bucket_id limit starttime endtime =
     (let where_ge = (case starttime of None \<Rightarrow> None | Some s \<Rightarrow> Some s);
          where_le = (case endtime of None \<Rightarrow> None | Some e \<Rightarrow> Some e);
          limit_clause = (if limit \<noteq> 0 \<and> limit > - 1 then Some limit else None);
          result = snd (query db (Select_range bucket_id where_ge where_le limit_clause))
      in event_parser_from result)"

text \<open>\<^verbatim>\<open>get_eventcount\<close>: the query text mentions neither bound.\<close>

fun count_loop :: "dict list \<Rightarrow> pyval \<Rightarrow> error + pyval" where
  "count_loop [] result = Inr result"
| "count_loop (item # generator) result =
     bind_err (dict_get item ''count'') (\<lambda>c. count_loop generator c)"

definition get_eventcount ::
  "influxdb \<Rightarrow> string \<Rightarrow> datetime option \<Rightarrow> datetime option \<Rightarrow> error + pyval" where
  "get_eventcount db bucket_id starttime endtime =
     count_loop (snd (query db (Select_count bucket_id ''id''))) (PInt 0)"

text \<open>\<^verbatim>\<open>_get_last_event_id\<close>\<close>

fun last_id_loop :: "dict list \<Rightarrow> pyval \<Rightarrow> error + pyval" where
  "last_id_loop [] result = Inr result"
| "last_id_loop (item # generator) result =
     bind_err (dict_get item ''time'') (\<lambda>t. last_id_loop generator t)"

definition get_last_event_id :: "influxdb \<Rightarrow> string \<Rightarrow> error + pyval" where
  "get_last_event_id db bucket_id =
     last_id_loop (snd (query db (Select_last bucket_id ''id''))) PNone"

text \<open>\<^verbatim>\<open>insert_one\<close>: write the point, then set the event's id from the last id.\<close>

definition insert_one :: "influxdb \<Rightarrow> string \<Rightarrow> Event \<Rightarrow> error + influxdb \<times> Event" where
  "insert_one db bucket_id event =
     (let data = event_parser_to bucket_id event;
          db' = write_points db [data]
      in bind_err (get_last_event_id db' bucket_id)
           (\<lambda>i. Inr (db', event\<lparr>id_ev := i\<rparr>)))"

text \<open>
  \<^verbatim>\<open>insert_many\<close>. The loop body is \<^verbatim>\<open>data, event = self._event_parser_to(bucket_id, event)\<close>:
  it unpacks the returned dict, that is the sequence of its keys, into two names, which
  raises \<^verbatim>\<open>ValueError\<close> unless there are exactly two keys. What is appended to \<^verbatim>\<open>bulk\<close>
  would then be a key, a str; \<^verbatim>\<open>write_points\<close> takes points, and fails with a
  \<^verbatim>\<open>TypeError\<close> on the first element that is not a dict.
\<close>

definition unpack2 :: "'a list \<Rightarrow> error + 'a \<times> 'a" where
  "unpack2 xs = (case xs of [a, b] \<Rightarrow> Inr (a, b) | _ \<Rightarrow> Inl ValueError)"

datatype bulk_item = Bulk_point point | Bulk_str string

fun many_loop :: "string \<Rightarrow> Event list \<Rightarrow> bulk_item list \<Rightarrow> error + bulk_item list" where
  "many_loop bucket_id [] bulk = Inr bulk"
| "many_loop bucket_id (event # events) bulk =
     bind_err (unpack2 (point_keys (event_parser_to bucket_id event)))
       (\<lambda>(data, event'). many_loop bucket_id events (bulk @ [Bulk_str data]))"

fun bulk_points :: "bulk_item list \<Rightarrow> error + point list" where
  "bulk_points [] = Inr []"
| "bulk_points (Bulk_point p # bulk) = bind_err (bulk_points bulk) (\<lambda>ps. Inr (p # ps))"
| "bulk_points (Bulk_str s # bulk) = Inl TypeError"

definition insert_many :: "influxdb \<Rightarrow> string \<Rightarrow> Event list \<Rightarrow> error + influxdb" where
  "insert_many db bucket_id events =
     bind_err (many_loop bucket_id events [])
       (\<lambda>bulk. bind_err (bulk_points bulk) (\<lambda>ps. Inr (write_points db ps)))"

text \<open>
  \<^verbatim>\<open>delete\<close>: the body sends the statement and ends without a \<^verbatim>\<open>return\<close>, so the
  call's value is \<^verbatim>\<open>None\<close>.
\<close>

definition delete :: "influxdb \<Rightarrow> string \<Rightarrow> int \<Rightarrow> influxdb \<times> pyval" where
  "delete db bucket_id event_id =
     (fst (query db (Delete_where bucket_id ''id'' (PInt event_id))), PNone)"

text \<open>\<^verbatim>\<open>replace\<close> and \<^verbatim>\<open>replace_last\<close>: set the id, then insert.\<close>

definition replace :: "influxdb \<Rightarrow> string \<Rightarrow> int \<Rightarrow> Event \<Rightarrow> error + influxdb \<times> Event" where
  "replace db bucket_id event_id event = insert_one db bucket_id (event\<lparr>id_ev := PInt event_id\<rparr>)"

definition replace_last :: "influxdb \<Rightarrow> string \<Rightarrow> Event \<Rightarrow> error + influxdb \<times> Event" where
  "replace_last db bucket_id event =
     bind_err (get_last_event_id db bucket_id)
       (\<lambda>i. insert_one db bucket_id (event\<lparr>id_ev := i\<rparr>))"

section \<open>Predicates and example data for the properties\<close>

text \<open>
  The test the decoder's inner loop applies to a key of a record before it copies the
  key into the event's attributes: not \<^verbatim>\<open>time\<close> or \<^verbatim>\<open>duration\<close>, first character not
  an underscore, value true.
\<close>

definition copied :: "dict \<Rightarrow> string \<Rightarrow> bool" where
  "copied event key = (key \<noteq> ''time'' \<and> key \<noteq> ''duration'' \<and> key \<noteq> [] \<and> hd key \<noteq> CHR ''_''
      \<and> (case map_of event key of None \<Rightarrow> False | Some v \<Rightarrow> truthy v))"

text \<open>
  An attribute name that the codec carries through: not empty, not beginning with the
  underscore that marks a tag column, and not one of the two column names the decoder
  reads for itself.
\<close>

definition plain_key :: "string \<Rightarrow> bool" where
  "plain_key k = (k \<noteq> [] \<and> hd k \<noteq> CHR ''_'' \<and> k \<noteq> ''time'' \<and> k \<noteq> ''duration'')"

text \<open>
  A stored point that the decoder accepts: its time is a \<^verbatim>\<open>datetime\<close>, no column name is
  empty, and its \<^verbatim>\<open>duration\<close> column is a number of seconds within \<^verbatim>\<open>timedelta\<close>'s
  range. A metadata point is tagged with the id of its bucket.
\<close>

definition wf_point :: "point \<Rightarrow> bool" where
  "wf_point p =
     (valid_datetime (time p) \<and> [] \<notin> set (dict_keys (row_of p)) \<and>
      (case map_of (row_of p) ''duration'' of
         None \<Rightarrow> False
       | Some d \<Rightarrow> (case timedelta_of_seconds d of Inl _ \<Rightarrow> False | Inr _ \<Rightarrow> True)))"

definition tagged :: "string \<Rightarrow> point \<Rightarrow> bool" where
  "tagged bucket_id p = (map_of (tags p) ''id'' = Some (PStr bucket_id))"

text \<open>
  The point \<^verbatim>\<open>create_bucket\<close> writes into a new bucket (\<^verbatim>\<open>dummyevent\<close>): time zero, no
  tags, and the single field \<^verbatim>\<open>duration\<close> of 0.0.
\<close>

definition dummyevent :: "string \<Rightarrow> point" where
  "dummyevent bucket_id =
     \<lparr>measurement = bucket_id, tags = [], time = 0, pfields = [(''duration'', PFloat 0)]\<rparr>"

text \<open>
  Example data: two events one second apart, the points the adapter writes for them, and
  the states of a backend whose bucket \<^verbatim>\<open>b\<close> holds the dummy event alone, then the
  first event too, then both.
\<close>

definition ex_a :: Event where
  "ex_a = \<lparr>id_ev = PInt 1, timestamp = 1000, duration = 1000000,
           data = [(''label'', PStr ''test1'')]\<rparr>"

definition ex_b :: Event where
  "ex_b = \<lparr>id_ev = PInt 2, timestamp = 2000, duration = 2000000,
           data = [(''label'', PStr ''test2'')]\<rparr>"

definition ex_point_a :: point where
  "ex_point_a = \<lparr>measurement = ''b'', tags = [], time = 1000,
      pfields = [(''id'', PInt 1), (''duration'', PFloat 1), (''label'', PStr ''test1'')]\<rparr>"

definition ex_point_b :: point where
  "ex_point_b = \<lparr>measurement = ''b'', tags = [], time = 2000,
      pfields = [(''id'', PInt 1000), (''duration'', PFloat 2), (''label'', PStr ''test2'')]\<rparr>"

definition ex_db0 :: influxdb where
  "ex_db0 = (\<lambda>_. [])(''b'' := [dummyevent ''b''])"

definition ex_db1 :: influxdb where
  "ex_db1 = (\<lambda>_. [])(''b'' := [dummyevent ''b'', ex_point_a])"

definition ex_db2 :: influxdb where
  "ex_db2 = (\<lambda>_. [])(''b'' := [dummyevent ''b'', ex_point_a, ex_point_b])"

definition ex_decoded_a :: Event where
  "ex_decoded_a = \<lparr>id_ev = PInt 1000, timestamp = 1000, duration = 1000000,
      data = [(''id'', PInt 1), (''label'', PStr ''test1'')]\<rparr>"

definition ex_decoded_b :: Event where
  "ex_decoded_b = \<lparr>id_ev = PInt 2000, timestamp = 2000, duration = 2000000,
      data = [(''id'', PInt 1000), (''label'', PStr ''test2'')]\<rparr>"

text \<open>
  An event whose duration, 9504000000000001 microseconds (about 301 years), is not the
  microseconds of any double number of seconds.
\<close>

definition ex_long :: Event where
  "ex_long = \<lparr>id_ev = PNone, timestamp = 1000, duration = 9504000000000001,
      data = [(''label'', PStr ''x'')]\<rparr>"

text \<open>An event with one attribute whose name begins with an underscore.\<close>

definition ex_underscore :: Event where
  "ex_underscore = \<lparr>id_ev = PNone, timestamp = 1000, duration = 1000000,
      data = [(''_x'', PStr ''v'')]\<rparr>"

text \<open>
  Two metadata points for the bucket \<^verbatim>\<open>b\<close>, as two calls of \<^verbatim>\<open>create_bucket\<close> with
  different creation times leave them, and a backend that holds both.
\<close>

definition ex_meta1 :: point where
  "ex_meta1 = \<lparr>measurement = ''metadata'',
      tags = [(''id'', PStr ''b''), (''_id'', PStr ''metadata'')], time = 1,
      pfields = [(''name'', PNone), (''type'', PStr ''test''), (''client'', PStr ''c1''),
                 (''hostname'', PStr ''h''), (''created'', PStr ''t1'')]\<rparr>"

definition ex_meta2 :: point where
  "ex_meta2 = \<lparr>measurement = ''metadata'',
      tags = [(''id'', PStr ''b''), (''_id'', PStr ''metadata'')], time = 2,
      pfields = [(''name'', PNone), (''type'', PStr ''test''), (''client'', PStr ''c2''),
                 (''hostname'', PStr ''h''), (''created'', PStr ''t2'')]\<rparr>"

definition ex_md :: influxdb where
  "ex_md = (\<lambda>_. [])(''metadata'' := [ex_meta1, ex_meta2])"

section \<open>Lemmas about rounding to a double\<close>

lemma pow2_powi: "pow2 e = 2 powi e"
  by (simp add: pow2_def power_int_def field_simps)

lemma pow2_pos [simp]: "0 < pow2 e"
  by (simp add: pow2_powi)

lemma pow2_neq0 [simp]: "pow2 e \<noteq> 0"
  by (simp add: pow2_def)

lemma pow2_add: "pow2 (a + b) = pow2 a * pow2 b"
  by (simp add: pow2_powi power_int_add)

lemma pow2_mono: "a \<le> b \<Longrightarrow> pow2 a \<le> pow2 b"
  by (simp add: pow2_powi power_int_increasing)

lemma pow2_strict_mono: "a < b \<Longrightarrow> pow2 a < pow2 b"
  by (simp add: pow2_powi power_int_strict_increasing)

lemma pow2_less_cancel: "pow2 a < pow2 b \<Longrightarrow> a < b"
  using pow2_mono [of b a] by (cases "a < b") auto

lemma pow2_nat: "pow2 (int n) = 2 ^ n"
  by (simp add: pow2_def)

lemma rhe_err: "\<bar>of_int (round_half_even t) - t\<bar> \<le> 1 / 2"
proof -
  have "of_int \<lfloor>t\<rfloor> \<le> t" "t < of_int \<lfloor>t\<rfloor> + 1" by linarith+
  then show ?thesis by (auto simp: round_half_even_def Let_def)
qed

lemma rhe_of_int: "round_half_even (of_int n) = n"
  by (simp add: round_half_even_def)

lemma floor_log2_bounds:
  assumes "0 < q"
  shows "pow2 (floor_log2 q) \<le> q" and "q < pow2 (floor_log2 q + 1)"
proof -
  obtain a b where ab: "quotient_of q = (a, b)" by (cases "quotient_of q")
  then have b: "0 < b" by (rule quotient_of_denom_pos)
  from ab have q: "q = of_int a / of_int b" by (rule quotient_of_div)
  with assms b have a: "0 < a" by (simp add: zero_less_divide_iff)
  define k where "k = bitlen a - bitlen b"
  from bitlen_bounds [OF a] have a1: "2 ^ nat (bitlen a - 1) \<le> a" and a2: "a < 2 ^ nat (bitlen a)"
    by auto
  from bitlen_bounds [OF b] have b1: "2 ^ nat (bitlen b - 1) \<le> b" and b2: "b < 2 ^ nat (bitlen b)"
    by auto
  have la: "1 \<le> bitlen a" using a by (simp add: bitlen_alt_def)
  have lb: "1 \<le> bitlen b" using b by (simp add: bitlen_alt_def)
  have A1: "pow2 (bitlen a - 1) \<le> of_int a"
  proof -
    have "(of_int (2 ^ nat (bitlen a - 1)) :: rat) \<le> of_int a" using a1 by (simp only: of_int_le_iff)
    then show ?thesis using la by (simp add: pow2_def)
  qed
  have A2: "of_int a < pow2 (bitlen a)"
  proof -
    have "(of_int a :: rat) < of_int (2 ^ nat (bitlen a))" using a2 by (simp only: of_int_less_iff)
    then show ?thesis using la by (simp add: pow2_def)
  qed
  have B1: "pow2 (bitlen b - 1) \<le> of_int b"
  proof -
    have "(of_int (2 ^ nat (bitlen b - 1)) :: rat) \<le> of_int b" using b1 by (simp only: of_int_le_iff)
    then show ?thesis using lb by (simp add: pow2_def)
  qed
  have B2: "of_int b < pow2 (bitlen b)"
  proof -
    have "(of_int b :: rat) < of_int (2 ^ nat (bitlen b))" using b2 by (simp only: of_int_less_iff)
    then show ?thesis using lb by (simp add: pow2_def)
  qed
  have bpos: "(0::rat) < of_int b" using b by simp
  have low: "pow2 (k - 1) \<le> q"
  proof -
    have "pow2 (k - 1) * of_int b \<le> pow2 (k - 1) * pow2 (bitlen b)"
      using B2 by (simp add: less_imp_le)
    also have "\<dots> = pow2 (bitlen a - 1)" by (simp add: k_def pow2_add [symmetric])
    also have "\<dots> \<le> of_int a" by (rule A1)
    finally show ?thesis using bpos by (simp add: q pos_le_divide_eq)
  qed
  have high: "q < pow2 (k + 1)"
  proof -
    have "of_int a < pow2 (bitlen a)" by (rule A2)
    also have "\<dots> = pow2 (k + 1) * pow2 (bitlen b - 1)" by (simp add: k_def pow2_add [symmetric])
    also have "\<dots> \<le> pow2 (k + 1) * of_int b" using B1 by simp
    finally show ?thesis using bpos by (simp add: q pos_divide_less_eq)
  qed
  have fl: "floor_log2 q = (if pow2 k \<le> q then k else k - 1)"
    by (simp add: floor_log2_def ab k_def Let_def)
  show "pow2 (floor_log2 q) \<le> q" using low by (simp add: fl)
  show "q < pow2 (floor_log2 q + 1)" using high by (auto simp: fl)
qed

lemma floor_log2_less: "0 < q \<Longrightarrow> q < pow2 n \<Longrightarrow> floor_log2 q < n"
  using floor_log2_bounds(1) [of q] by (intro pow2_less_cancel) simp

lemma to_double_err:
  assumes "0 < q" "q < pow2 n" "- 1021 \<le> n"
  shows "\<bar>to_double q - q\<bar> \<le> pow2 (n - 54)"
proof -
  define e where "e = max (floor_log2 q - 52) (- 1074)"
  define m where "m = round_half_even (q / pow2 e)"
  have td: "to_double q = of_int m * pow2 e"
    using assms(1) by (simp add: to_double_def e_def m_def Let_def)
  have "floor_log2 q < n" using assms by (intro floor_log2_less)
  with assms(3) have e: "e \<le> n - 53" by (simp add: e_def)
  have "\<bar>of_int m - q / pow2 e\<bar> \<le> 1 / 2" unfolding m_def by (rule rhe_err)
  then have "\<bar>of_int m - q / pow2 e\<bar> * pow2 e \<le> 1 / 2 * pow2 e"
    by (intro mult_right_mono) (simp_all add: less_imp_le)
  also have "\<bar>of_int m - q / pow2 e\<bar> * pow2 e = \<bar>of_int m * pow2 e - q\<bar>"
  proof -
    have "\<bar>pow2 e\<bar> = pow2 e" by (simp add: less_imp_le)
    then have "\<bar>of_int m - q / pow2 e\<bar> * pow2 e = \<bar>(of_int m - q / pow2 e) * pow2 e\<bar>"
      by (simp add: abs_mult)
    also have "(of_int m - q / pow2 e) * pow2 e = of_int m * pow2 e - q"
      by (simp add: field_simps)
    finally show ?thesis .
  qed
  also have "1 / 2 * pow2 e = pow2 (e - 1)"
    using pow2_add [of e "- 1"] by (simp add: pow2_def)
  finally have "\<bar>to_double q - q\<bar> \<le> pow2 (e - 1)" by (simp add: td)
  also have "\<dots> \<le> pow2 (n - 54)" using e by (intro pow2_mono) simp
  finally show ?thesis .
qed

lemma to_double_int:
  assumes "0 < s" "s < 2 ^ 53"
  shows "to_double (of_int s) = of_int s"
proof -
  define e where "e = max (floor_log2 (of_int s) - 52) (- 1074)"
  have "(of_int s :: rat) < of_int (2 ^ 53)" using assms(2) by (simp only: of_int_less_iff)
  then have "(of_int s :: rat) < pow2 53" by (simp add: pow2_def)
  with assms(1) have "floor_log2 (of_int s) < 53" by (intro floor_log2_less) simp_all
  then have e: "e \<le> 0" by (simp add: e_def)
  then have "pow2 e = 1 / 2 ^ nat (- e)" by (cases "e = 0") (simp_all add: pow2_def)
  then have "of_int s / pow2 e = of_int (s * 2 ^ nat (- e))" by simp
  then have "round_half_even (of_int s / pow2 e) = s * 2 ^ nat (- e)"
    by (simp only: rhe_of_int)
  moreover have "of_int (s * 2 ^ nat (- e)) * pow2 e = (of_int s :: rat)"
    using \<open>pow2 e = 1 / 2 ^ nat (- e)\<close> by simp
  ultimately show ?thesis
    using assms(1) by (simp add: to_double_def Let_def e_def [symmetric])
qed

lemma trunc_pos: "0 \<le> z \<Longrightarrow> trunc z = \<lfloor>z\<rfloor>"
  by (simp add: trunc_def)

lemma round_leftover_nearest:
  assumes z: "0 < z" and near: "\<bar>z - of_int r\<bar> < 1 / 2"
  shows "round_leftover (y0 + trunc z) (z - of_int (trunc z)) = y0 + r"
proof -
  define i where "i = \<lfloor>z\<rfloor>"
  define l where "l = z - of_int i"
  have t: "trunc z = i" using z by (simp add: trunc_pos i_def)
  have fl: "of_int i \<le> z" "z < of_int i + 1" unfolding i_def by linarith+
  from near have lo: "of_int r - 1 / 2 < z" and hi: "z < of_int r + 1 / 2" by linarith+
  have "(of_int (r - 1) :: rat) < of_int (i + 1)" using lo fl(2) by simp
  then have i1: "r - 1 < i + 1" by (simp only: of_int_less_iff)
  have "(of_int i :: rat) < of_int (r + 1)" using hi fl(1) by simp
  then have i2: "i < r + 1" by (simp only: of_int_less_iff)
  from i1 i2 consider "i = r" | "i = r - 1" by linarith
  then have "round_leftover (y0 + i) l = y0 + r"
  proof cases
    case 1
    then have l: "0 \<le> l" "l < 1 / 2" using fl hi by (simp_all add: l_def)
    show ?thesis
    proof (cases "l = 0")
      case True
      then show ?thesis using 1 by (simp add: round_leftover_def)
    next
      case False
      have "\<lfloor>l + 1 / 2\<rfloor> = 0" using l by (simp add: floor_eq_iff)
      then have c: "c_round l = 0" using l by (simp add: c_round_def)
      have "\<bar>of_int (c_round l) - l\<bar> \<noteq> 1 / 2" using l c by simp
      then show ?thesis using False c 1 by (simp add: round_leftover_def Let_def)
    qed
  next
    case 2
    then have l: "1 / 2 < l" "l < 1" using fl lo by (simp_all add: l_def)
    have "\<lfloor>l + 1 / 2\<rfloor> = 1" using l by (simp add: floor_eq_iff)
    then have c: "c_round l = 1" using l by (simp add: c_round_def)
    have "\<bar>of_int (c_round l) - l\<bar> \<noteq> 1 / 2" using l c by simp
    moreover have "l \<noteq> 0" using l by simp
    ultimately show ?thesis using c 2 by (simp add: round_leftover_def Let_def)
  qed
  then show ?thesis by (simp add: t l_def)
qed

lemma timedelta_of_float_total_seconds:
  assumes d0: "0 \<le> d" and dmax: "d < 8589934592000000"
  shows "timedelta_of_float (to_double (of_int d / 1000000)) = d"
proof -
  define s where "s = d div 1000000"
  define r where "r = d mod 1000000"
  define q :: rat where "q = of_int d / 1000000"
  have d: "d = s * 1000000 + r" by (simp add: s_def r_def)
  have r: "0 \<le> r" "r < 1000000" by (simp_all add: r_def)
  have s: "0 \<le> s" "s < 8589934592" using d0 dmax d r by linarith+
  have q: "q = of_int s + of_int r / 1000000" by (simp add: q_def d)
  show ?thesis
  proof (cases "r = 0")
    case True
    then have qs: "q = of_int s" by (simp add: q)
    show ?thesis
    proof (cases "s = 0")
      case True
      with qs \<open>r = 0\<close> d show ?thesis
        by (simp add: q_def [symmetric] to_double_def timedelta_of_float_def trunc_def)
    next
      case False
      with s have "0 < s" "s < 2 ^ 53" by simp_all
      then have "to_double (of_int s) = of_int s" by (rule to_double_int)
      with qs \<open>r = 0\<close> d s show ?thesis
        by (simp add: q_def [symmetric] timedelta_of_float_def trunc_def)
    qed
  next
    case False
    with r have r1: "1 \<le> r" "r \<le> 999999" by simp_all
    have rq: "(1::rat) \<le> of_int r" "(of_int r :: rat) \<le> 999999"
      using r1 by (simp_all only: of_int_le_iff [symmetric, where 'a = rat] of_int_1 of_int_numeral)
    have sq: "(0::rat) \<le> of_int s" "(of_int s :: rat) \<le> 8589934591"
    proof -
      show "(0::rat) \<le> of_int s" using s by simp
      have "s \<le> 8589934591" using s by simp
      then have "(of_int s :: rat) \<le> of_int 8589934591" by (simp only: of_int_le_iff)
      then show "(of_int s :: rat) \<le> 8589934591" by simp
    qed
    define x where "x = to_double q"
    have qpos: "0 < q" using rq sq q by linarith
    have "q < 8589934592" using rq sq q by linarith
    then have qlt: "q < pow2 33" by (simp add: pow2_def)
    have "\<bar>x - q\<bar> \<le> pow2 (33 - 54)" unfolding x_def by (rule to_double_err [OF qpos qlt]) simp
    then have xerr: "\<bar>x - q\<bar> \<le> 1 / 2097152" by (simp add: pow2_def)
    have xlo: "of_int s < x" and xhi: "x < of_int s + 1"
      using xerr rq q by linarith+
    then have xpos: "0 \<le> x" using sq by linarith
    have "\<lfloor>x\<rfloor> = s" using xlo xhi by (simp add: floor_eq_iff)
    then have tx: "trunc x = s" using xpos by (simp add: trunc_pos)
    define f where "f = x - of_int s"
    have f: "0 < f" "f < 1" using xlo xhi unfolding f_def by linarith+
    define y where "y = 1000000 * f"
    have ypos: "0 < y" using f unfolding y_def by linarith
    have "y < 1048576" using f unfolding y_def by linarith
    then have ylt: "y < pow2 20" by (simp add: pow2_def)
    define z where "z = to_double y"
    have "\<bar>z - y\<bar> \<le> pow2 (20 - 54)" unfolding z_def by (rule to_double_err [OF ypos ylt]) simp
    then have zerr: "\<bar>z - y\<bar> \<le> 1 / 17179869184" by (simp add: pow2_def)
    have "y - of_int r = 1000000 * (x - q)" by (simp add: y_def f_def q)
    then have yr: "y - of_int r = 1000000 * x - 1000000 * q" by (simp add: algebra_simps)
    from xerr have "x - q \<le> 1 / 2097152" "q - x \<le> 1 / 2097152" by linarith+
    with yr have yerr: "y - of_int r \<le> 1 / 2 - 1 / 17179869184 - 1 / 100"
      "of_int r - y \<le> 1 / 2 - 1 / 17179869184 - 1 / 100" by linarith+
    from zerr have "z - y \<le> 1 / 17179869184" "y - z \<le> 1 / 17179869184" by linarith+
    with yerr have near: "\<bar>z - of_int r\<bar> < 1 / 2" by linarith
    then have zpos: "0 < z" using rq by linarith
    have "round_leftover (s * 1000000 + trunc z) (z - of_int (trunc z)) = s * 1000000 + r"
      by (rule round_leftover_nearest [OF zpos near])
    moreover have "f \<noteq> 0" using f by simp
    then have "timedelta_of_float x =
        round_leftover (s * 1000000 + trunc z) (z - of_int (trunc z))"
      unfolding timedelta_of_float_def Let_def tx f_def [symmetric]
      by (simp add: y_def [symmetric] z_def [symmetric])
    ultimately have "timedelta_of_float x = d" by (simp only: d)
    then show ?thesis by (simp only: x_def q_def)
  qed
qed

section \<open>Lemmas about dictionaries and the codec\<close>

lemma bind_err_Inr_iff: "bind_err m f = Inr y \<longleftrightarrow> (\<exists>x. m = Inr x \<and> f x = Inr y)"
  by (cases m) (simp_all add: bind_err_def)

lemma bind_err_simps [simp]: "bind_err (Inr x) f = f x" "bind_err (Inl e) f = Inl e"
  by (simp_all add: bind_err_def)

lemma map_of_dict_set: "map_of (dict_set d k v) = (map_of d)(k \<mapsto> v)"
  by (induction d) (auto simp: fun_eq_iff)

lemma keys_dict_set: "fst ` set (dict_set d k v) = insert k (fst ` set d)"
  by (simp add: dom_map_of_conv_image_fst [symmetric] map_of_dict_set)

lemma map_of_dict_update: "map_of (dict_update d kvs) = map_of d ++ map_of (rev kvs)"
  unfolding dict_update_def
proof (induction kvs arbitrary: d)
  case Nil
  then show ?case by simp
next
  case (Cons kv kvs)
  show ?case
    by (cases kv) (simp add: Cons.IH map_of_dict_set fun_eq_iff map_add_def split: option.splits)
qed

lemma keys_dict_update: "fst ` set (dict_update d kvs) = fst ` set d \<union> fst ` set kvs"
  unfolding dict_update_def
  by (induction kvs arbitrary: d) (auto simp: keys_dict_set)

lemma dict_get_Inr_iff: "dict_get d k = Inr v \<longleftrightarrow> map_of d k = Some v"
  by (simp add: dict_get_def split: option.splits)

lemma from_loop_Inr:
  "from_loop event keys acc = Inr acc' \<Longrightarrow>
   map_of acc' k = (if k \<in> set keys \<and> copied event k then map_of event k else map_of acc k)"
proof (induction keys arbitrary: acc)
  case Nil
  then show ?case by simp
next
  case (Cons key keys)
  show ?case
  proof (cases "key \<noteq> ''time'' \<and> key \<noteq> ''duration''")
    case False
    with Cons.prems have "from_loop event keys acc = Inr acc'" by auto
    from Cons.IH[OF this] False show ?thesis by (auto simp: copied_def)
  next
    case True
    note nt = this
    show ?thesis
    proof (cases key)
      case Nil
      with Cons.prems nt show ?thesis by simp
    next
      case (Cons c cs)
      show ?thesis
      proof (cases "c = CHR ''_''")
        case True
        with Cons.prems nt Cons have "from_loop event keys acc = Inr acc'" by simp
        from Cons.IH[OF this] True Cons show ?thesis by (auto simp: copied_def)
      next
        case False
        with Cons.prems nt Cons obtain v where v: "map_of event key = Some v"
          and r: "(if truthy v then from_loop event keys (dict_set acc key v) else from_loop event keys acc) = Inr acc'"
          by (auto simp: bind_err_Inr_iff dict_get_Inr_iff)
        show ?thesis
        proof (cases "truthy v")
          case True
          with r have "from_loop event keys (dict_set acc key v) = Inr acc'" by simp
          from Cons.IH[OF this] v True nt Cons False show ?thesis
            by (auto simp: copied_def map_of_dict_set)
        next
          case f: False
          with r have "from_loop event keys acc = Inr acc'" by simp
          from Cons.IH[OF this] v f nt Cons False show ?thesis
            by (auto simp: copied_def)
        qed
      qed
    qed
  qed
qed

lemma from_loop_total:
  "[] \<notin> set keys \<Longrightarrow> set keys \<subseteq> fst ` set event \<Longrightarrow> \<exists>acc'. from_loop event keys acc = Inr acc'"
proof (induction keys arbitrary: acc)
  case Nil
  then show ?case by simp
next
  case (Cons key keys)
  then obtain c cs where key: "key = c # cs" by (cases key) auto
  from Cons.prems obtain v where v: "map_of event key = Some v"
    by (metis list.set_intros(1) subsetD weak_map_of_SomeI domIff dom_map_of_conv_image_fst not_Some_eq)
  from Cons.prems have *: "[] \<notin> set keys" "set keys \<subseteq> fst ` set event" by auto
  show ?case using Cons.IH[OF *] v key
    by (simp add: dict_get_def)
qed

lemma to_loop_measurement: "measurement (to_loop d keys pt) = measurement pt"
  by (induction d keys pt rule: to_loop.induct) (auto simp: Let_def split: option.splits)

lemma to_loop_time: "time (to_loop d keys pt) = time pt"
  by (induction d keys pt rule: to_loop.induct) (auto simp: Let_def split: option.splits)

lemma to_loop_fields:
  "map_of (pfields (to_loop d keys pt)) k =
     (if k \<in> set keys \<and> map_of d k \<noteq> None then map_of d k else map_of (pfields pt) k)"
  by (induction d keys pt rule: to_loop.induct)
     (auto simp: Let_def map_of_dict_set split: option.splits)

lemma to_loop_tag_keys:
  "k \<in> fst ` set (tags (to_loop d keys pt)) \<Longrightarrow>
   k \<in> fst ` set (tags pt) \<or> (\<exists>k'. k = CHR ''_'' # k')"
proof (induction d keys pt rule: to_loop.induct)
  case (1 event_data pt)
  then show ?case by simp
next
  case (2 event_data key keys pt)
  show ?case
  proof (cases "map_of event_data key")
    case None
    with 2 show ?thesis by simp
  next
    case (Some v)
    with 2 show ?thesis
      by (auto simp: Let_def keys_dict_set split: if_splits)
  qed
qed

lemma to_loop_field_keys:
  "fst ` set (pfields (to_loop d keys pt)) \<subseteq> fst ` set (pfields pt) \<union> set keys"
proof (induction d keys pt rule: to_loop.induct)
  case (1 event_data pt)
  then show ?case by simp
next
  case (2 event_data key keys pt)
  show ?case
  proof (cases "map_of event_data key")
    case None
    with 2 show ?thesis by auto
  next
    case (Some v)
    with 2 show ?thesis
      by (auto simp: Let_def keys_dict_set split: if_splits)
  qed
qed

lemma map_of_row_of:
  "map_of (row_of p) =
     (map_of (rev (pfields p)) ++ map_of (rev (tags p)))(''time'' \<mapsto> PInt (time p))"
  by (simp add: row_of_def map_of_dict_set map_of_dict_update)

lemma keys_row_of:
  "fst ` set (row_of p) = insert ''time'' (fst ` set (pfields p) \<union> fst ` set (tags p))"
  by (simp add: row_of_def keys_dict_set keys_dict_update)

lemma map_of_rev_distinct: "distinct (map fst xs) \<Longrightarrow> map_of (rev xs) = map_of xs"
proof (induction xs)
  case Nil
  then show ?case by simp
next
  case (Cons x xs)
  then have "fst x \<notin> dom (map_of xs)" by (simp add: dom_map_of_conv_image_fst)
  with Cons show ?case
    by (cases x) (auto simp: fun_eq_iff map_add_def domIff split: option.splits)
qed

lemma distinct_dict_set: "distinct (map fst d) \<Longrightarrow> distinct (map fst (dict_set d k v))"
proof (induction d)
  case Nil
  then show ?case by simp
next
  case (Cons x d)
  have "fst ` set (dict_set d k v) = insert k (fst ` set d)" by (rule keys_dict_set)
  with Cons show ?case by (cases x) auto
qed

lemma to_loop_distinct_fields:
  "distinct (map fst (pfields pt)) \<Longrightarrow> distinct (map fst (pfields (to_loop d keys pt)))"
  by (induction d keys pt rule: to_loop.induct)
     (auto simp: Let_def distinct_dict_set split: option.splits)

lemma to_loop_distinct_tags:
  "distinct (map fst (tags pt)) \<Longrightarrow> distinct (map fst (tags (to_loop d keys pt)))"
  by (induction d keys pt rule: to_loop.induct)
     (auto simp: Let_def distinct_dict_set split: option.splits)

lemma timedelta_roundtrip:
  assumes "0 \<le> d" "d < 8589934592000000"
  shows "timedelta_of_seconds (total_seconds d) = Inr d"
  using assms timedelta_of_float_total_seconds [OF assms]
  by (simp add: timedelta_of_seconds_def total_seconds_def valid_timedelta_def
      timedelta_min_def timedelta_max_def)

lemma in_keys_iff: "k \<in> set (dict_keys d) \<longleftrightarrow> map_of d k \<noteq> None"
  by (simp add: dict_keys_def map_of_eq_None_iff)

lemma parser_to_time: "time (event_parser_to b E) = timestamp E"
  by (simp add: event_parser_to_def Let_def to_loop_time)

lemma parser_to_fields:
  "map_of (pfields (event_parser_to b E)) k =
     (case map_of (data E) k of
        Some v \<Rightarrow> Some v
      | None \<Rightarrow> if k = ''id'' then Some (id_ev E)
                else if k = ''duration'' then Some (total_seconds (duration E)) else None)"
  by (auto simp: event_parser_to_def Let_def to_loop_fields in_keys_iff split: option.splits)

lemma parser_to_distinct:
  "distinct (map fst (pfields (event_parser_to b E)))"
  "distinct (map fst (tags (event_parser_to b E)))"
  by (simp_all add: event_parser_to_def Let_def to_loop_distinct_fields to_loop_distinct_tags)

lemma parser_to_tag_keys:
  "k \<in> fst ` set (tags (event_parser_to b E)) \<Longrightarrow> \<exists>k'. k = CHR ''_'' # k'"
proof -
  assume "k \<in> fst ` set (tags (event_parser_to b E))"
  then have "k \<in> fst ` set (tags (to_loop (data E) (dict_keys (data E))
      \<lparr>measurement = b, tags = [], time = timestamp E,
        pfields = [(''id'', id_ev E), (''duration'', total_seconds (duration E))]\<rparr>))"
    by (simp add: event_parser_to_def Let_def)
  from to_loop_tag_keys [OF this] show ?thesis by simp
qed

lemma parser_to_field_keys:
  "fst ` set (pfields (event_parser_to b E)) \<subseteq> {''id'', ''duration''} \<union> set (dict_keys (data E))"
proof -
  have "fst ` set (pfields (event_parser_to b E)) \<subseteq>
      fst ` set [(''id'', id_ev E), (''duration'', total_seconds (duration E))]
      \<union> set (dict_keys (data E))"
    unfolding event_parser_to_def Let_def
    by (rule order_trans [OF to_loop_field_keys]) simp
  then show ?thesis by simp
qed

lemma row_lookup_plain:
  assumes "k \<noteq> ''time''" "k \<noteq> []" "hd k \<noteq> CHR ''_''"
  shows "map_of (row_of (event_parser_to b E)) k = map_of (pfields (event_parser_to b E)) k"
proof -
  have "k \<notin> fst ` set (tags (event_parser_to b E))"
  proof
    assume "k \<in> fst ` set (tags (event_parser_to b E))"
    from parser_to_tag_keys [OF this] assms show False by auto
  qed
  then have "map_of (rev (tags (event_parser_to b E))) k = None"
    by (simp add: map_of_eq_None_iff)
  with assms show ?thesis
    by (simp add: map_of_row_of map_add_def map_of_rev_distinct parser_to_distinct)
qed

lemma from_one_Inr:
  assumes "from_one event = Inr mapped"
  shows "dict_get event ''time'' = Inr (id_ev mapped)"
    and "py_int (id_ev mapped) = Inr (timestamp mapped)"
    and "valid_datetime (timestamp mapped)"
    and "\<exists>d. dict_get event ''duration'' = Inr d \<and> timedelta_of_seconds d = Inr (duration mapped)"
    and "from_loop event (dict_keys event) [] = Inr (data mapped)"
proof -
  from assms obtain t epoch fd d m dat where
    t: "dict_get event ''time'' = Inr t" and e: "py_int t = Inr epoch"
    and fd: "datetime_of_epoch epoch = Inr fd" and d: "dict_get event ''duration'' = Inr d"
    and m: "Event_init t fd d [] = Inr m"
    and dat: "from_loop event (dict_keys event) (data m) = Inr dat"
    and r: "mapped = m\<lparr>data := dat\<rparr>"
    unfolding from_one_def bind_err_Inr_iff by auto
  from m obtain td where td: "timedelta_of_seconds d = Inr td"
    and m': "m = \<lparr>id_ev = t, timestamp = fd, duration = td, data = []\<rparr>"
    unfolding Event_init_def bind_err_Inr_iff by auto
  from fd have v: "valid_datetime epoch" "fd = epoch"
    by (auto simp: datetime_of_epoch_def split: if_splits)
  show "dict_get event ''time'' = Inr (id_ev mapped)" using t r m' by simp
  show "py_int (id_ev mapped) = Inr (timestamp mapped)" using e r m' v by simp
  show "valid_datetime (timestamp mapped)" using r m' v by simp
  show "\<exists>d. dict_get event ''duration'' = Inr d \<and> timedelta_of_seconds d = Inr (duration mapped)"
    using d td r m' by simp
  show "from_loop event (dict_keys event) [] = Inr (data mapped)" using dat r m' by simp
qed

lemma from_one_intro:
  assumes "dict_get event ''time'' = Inr t" "py_int t = Inr epoch" "valid_datetime epoch"
    and "dict_get event ''duration'' = Inr d" "timedelta_of_seconds d = Inr td"
    and "from_loop event (dict_keys event) [] = Inr dat"
  shows "from_one event = Inr \<lparr>id_ev = t, timestamp = epoch, duration = td, data = dat\<rparr>"
  using assms by (simp add: from_one_def Event_init_def datetime_of_epoch_def)

lemma parser_from_Inr:
  "event_parser_from rows = Inr evs \<Longrightarrow> list_all2 (\<lambda>r e. from_one r = Inr e) rows evs"
proof (induction rows arbitrary: evs)
  case Nil
  then show ?case by simp
next
  case (Cons r rows)
  then obtain m rest where "from_one r = Inr m" "event_parser_from rows = Inr rest" "evs = m # rest"
    by (auto simp: bind_err_Inr_iff)
  with Cons.IH show ?case by simp
qed

lemma parser_from_total:
  "list_all2 (\<lambda>r e. from_one r = Inr e) rows evs \<Longrightarrow> event_parser_from rows = Inr evs"
  by (induction rule: list_all2_induct) simp_all

lemma from_one_id_field:
  assumes "from_one r = Inr e"
  shows "map_of (data e) ''id'' =
     (case map_of r ''id'' of None \<Rightarrow> None | Some v \<Rightarrow> if truthy v then Some v else None)"
proof -
  have "map_of (data e) ''id'' =
      (if ''id'' \<in> set (dict_keys r) \<and> copied r ''id'' then map_of r ''id'' else map_of [] ''id'')"
    by (rule from_loop_Inr [OF from_one_Inr(5) [OF assms]])
  then show ?thesis
    by (auto simp: copied_def in_keys_iff split: option.splits)
qed

lemma row_time: "dict_get (row_of p) ''time'' = Inr (PInt (time p))"
  by (simp add: dict_get_def map_of_row_of)

lemma from_one_row_time:
  assumes "from_one (row_of p) = Inr e"
  shows "timestamp e = time p"
proof -
  from from_one_Inr(1) [OF assms] have "id_ev e = PInt (time p)" by (simp add: row_time)
  with from_one_Inr(2) [OF assms] show ?thesis by simp
qed

lemma parser_from_rows_times:
  "event_parser_from (map row_of ps) = Inr evs \<Longrightarrow> map timestamp evs = map time ps"
proof (induction ps arbitrary: evs)
  case Nil
  then show ?case by simp
next
  case (Cons p ps)
  then obtain m rest where m: "from_one (row_of p) = Inr m"
    and rest: "event_parser_from (map row_of ps) = Inr rest" and evs: "evs = m # rest"
    by (auto simp: bind_err_Inr_iff)
  from Cons.IH [OF rest] from_one_row_time [OF m] evs show ?case by simp
qed

lemma wf_point_decodes:
  assumes "wf_point p"
  shows "\<exists>e. from_one (row_of p) = Inr e"
proof -
  from assms obtain d td where d: "dict_get (row_of p) ''duration'' = Inr d"
    and td: "timedelta_of_seconds d = Inr td"
    by (auto simp: wf_point_def dict_get_def split: option.splits sum.splits)
  from assms have ne: "[] \<notin> set (dict_keys (row_of p))" and v: "valid_datetime (time p)"
    by (simp_all add: wf_point_def)
  have "set (dict_keys (row_of p)) \<subseteq> fst ` set (row_of p)" by (simp add: dict_keys_def)
  from from_loop_total [OF ne this]
  obtain dat where dat: "from_loop (row_of p) (dict_keys (row_of p)) [] = Inr dat" by blast
  have "from_one (row_of p) =
      Inr \<lparr>id_ev = PInt (time p), timestamp = time p, duration = td, data = dat\<rparr>"
    by (rule from_one_intro [OF row_time _ v d td dat]) simp
  then show ?thesis ..
qed

lemma parser_from_rows_total:
  "\<forall>p \<in> set ps. wf_point p \<Longrightarrow>
   \<exists>evs. event_parser_from (map row_of ps) = Inr evs \<and> length evs = length ps"
proof (induction ps)
  case Nil
  then show ?case by simp
next
  case (Cons p ps)
  then obtain evs where evs: "event_parser_from (map row_of ps) = Inr evs" "length evs = length ps"
    by auto
  from Cons.prems wf_point_decodes obtain e where "from_one (row_of p) = Inr e" by auto
  with evs show ?case by simp
qed

lemma desc_sorted:
  "sorted_wrt (\<lambda>a b. b \<le> a) (map time (rev (sort_key time ps)))"
proof -
  have "sorted (map time (sort_key time ps))" by (rule sorted_sort_key)
  then show ?thesis by (simp add: rev_map [symmetric] sorted_wrt_rev)
qed

lemma query_range_rows:
  "snd (query db (Select_range m s e n)) =
     map row_of (case n of None \<Rightarrow> rev (sort_key time (filter (in_range s e) (db m)))
                 | Some k \<Rightarrow> take (nat k) (rev (sort_key time (filter (in_range s e) (db m)))))"
  by (simp add: Let_def)

lemma last_row:
  assumes "p \<in> set ps" "\<forall>q \<in> set ps. time q \<le> time p"
  shows "\<exists>q qs. rev (sort_key time ps) = q # qs \<and> time q = time p"
proof -
  let ?xs = "rev (sort_key time ps)"
  have set_xs: "set ?xs = set ps" by simp
  with assms(1) obtain q qs where r: "?xs = q # qs" by (cases ?xs) auto
  with set_xs have "q \<in> set ps" by auto
  with assms(2) have le: "time q \<le> time p" by blast
  have "sorted_wrt (\<lambda>a b. b \<le> a) (map time ?xs)" by (rule desc_sorted)
  with r have "\<forall>x \<in> set qs. time x \<le> time q" by simp
  moreover from assms(1) set_xs r have "p = q \<or> p \<in> set qs" by auto
  ultimately have "time p \<le> time q" by auto
  with le r show ?thesis by simp
qed

lemma first_row:
  assumes "filter P (sort_key time ps) = q # qs"
  shows "q \<in> set ps \<and> P q \<and> (\<forall>p \<in> set ps. P p \<longrightarrow> time q \<le> time p)"
proof -
  have s: "sorted (map time (filter P (sort_key time ps)))"
    by (simp add: sorted_map sorted_wrt_filter sorted_sort_key [unfolded sorted_map])
  have "set (q # qs) = {x \<in> set ps. P x}" using assms [symmetric] by simp
  then have m: "q \<in> set ps" "P q" and all: "\<And>p. p \<in> set ps \<Longrightarrow> P p \<Longrightarrow> p \<in> set (q # qs)"
    by auto
  from s assms have "\<forall>p \<in> set qs. time q \<le> time p" by simp
  with all m show ?thesis by fastforce
qed

lemmas ex_defs =
  dummyevent_def ex_a_def ex_b_def ex_point_a_def ex_point_b_def ex_db0_def ex_db1_def
  ex_db2_def ex_decoded_a_def ex_decoded_b_def

lemma ex_total_seconds:
  "total_seconds 1000000 = PFloat 1" "total_seconds 2000000 = PFloat 2"
  by code_simp+

lemma ex_insert_a: "insert_one ex_db0 ''b'' ex_a = Inr (ex_db1, ex_a\<lparr>id_ev := PInt 1000\<rparr>)"
  by (simp add: insert_one_def event_parser_to_def write_points_def write_point_def ex_defs
      get_last_event_id_def has_field_def dict_keys_def self_tags_def ex_total_seconds
      dict_get_def Let_def fun_eq_iff)

lemma ex_replace_last_b:
  "replace_last ex_db1 ''b'' ex_b = Inr (ex_db2, ex_b\<lparr>id_ev := PInt 2000\<rparr>)"
  by (simp add: replace_last_def insert_one_def event_parser_to_def write_points_def
      write_point_def ex_defs get_last_event_id_def has_field_def dict_keys_def self_tags_def
      ex_total_seconds dict_get_def Let_def fun_eq_iff)

lemma ex_get_events_2:
  "get_events ex_db2 ''b'' 2 None None = Inr [ex_decoded_b, ex_decoded_a]"
  by code_simp

lemma ex_db2_wf: "list_all wf_point (ex_db2 ''b'')"
  by code_simp

lemma ex_a_plain: "list_all plain_key (dict_keys (data ex_a))"
  by code_simp

section \<open>The claims\<close>

text \<open>
  C1. Inserting an event A and then calling \<^verbatim>\<open>replace_last\<close> with an event B should
  leave the number of events unchanged. The code does not: \<^verbatim>\<open>replace_last\<close> sets only
  the id of B and writes B at B's own timestamp, so when that differs from A's a new
  point is added. In the bucket \<^verbatim>\<open>b\<close> holding the dummy event, inserting \<open>ex_a\<close>
  (time 1000) gives two points and one counted id; the following \<^verbatim>\<open>replace_last\<close> of
  \<open>ex_b\<close> (time 2000) gives three points and two counted ids.
\<close>

theorem replace_last_adds_a_record:
  "insert_one ex_db0 ''b'' ex_a = Inr (ex_db1, ex_a\<lparr>id_ev := PInt 1000\<rparr>) \<and>
   replace_last ex_db1 ''b'' ex_b = Inr (ex_db2, ex_b\<lparr>id_ev := PInt 2000\<rparr>) \<and>
   get_eventcount ex_db1 ''b'' None None = Inr (PInt 1) \<and>
   get_eventcount ex_db2 ''b'' None None = Inr (PInt 2) \<and>
   map_sum (\<lambda>e. e) length (get_events ex_db1 ''b'' (- 1) None None) = Inr 2 \<and>
   map_sum (\<lambda>e. e) length (get_events ex_db2 ''b'' (- 1) None None) = Inr 3"
proof -
  have "get_eventcount ex_db1 ''b'' None None = Inr (PInt 1)" by code_simp
  moreover have "get_eventcount ex_db2 ''b'' None None = Inr (PInt 2)" by code_simp
  moreover have "map_sum (\<lambda>e. e) length (get_events ex_db1 ''b'' (- 1) None None) = Inr 2"
    by code_simp
  moreover have "map_sum (\<lambda>e. e) length (get_events ex_db2 ''b'' (- 1) None None) = Inr 3"
    by code_simp
  ultimately show ?thesis using ex_insert_a ex_replace_last_b by simp
qed

text \<open>
  C2, as amended. In a bucket whose \<open>N\<close> stored points all decode, \<^verbatim>\<open>get_events\<close>
  with a limit \<open>K > 0\<close> and no time bounds returns exactly \<open>min N K\<close> events, and with
  the limit -1, and equally with the limit 0, it returns all \<open>N\<close>.
\<close>

theorem get_events_limit:
  assumes "\<forall>p \<in> set (db bucket_id). wf_point p"
  shows "(0 < K \<longrightarrow>
            (\<exists>events. get_events db bucket_id K None None = Inr events \<and>
               length events = min (length (db bucket_id)) (nat K)))
       \<and> (\<exists>events. get_events db bucket_id (- 1) None None = Inr events \<and>
            length events = length (db bucket_id))
       \<and> (\<exists>events. get_events db bucket_id 0 None None = Inr events \<and>
            length events = length (db bucket_id))"
proof -
  define ps where "ps = rev (sort_key time (filter (in_range None None) (db bucket_id)))"
  have set_ps: "set ps = set (db bucket_id)" and len_ps: "length ps = length (db bucket_id)"
    by (simp_all add: ps_def in_range_def)
  have tot: "\<exists>evs. event_parser_from (map row_of (take n ps)) = Inr evs \<and>
      length evs = min (length (db bucket_id)) n" for n
  proof -
    have "\<forall>p \<in> set (take n ps). wf_point p"
      using assms set_ps by (auto dest: in_set_takeD)
    from parser_from_rows_total [OF this] len_ps show ?thesis by (simp add: min.commute)
  qed
  have all: "\<exists>evs. event_parser_from (map row_of ps) = Inr evs \<and> length evs = length (db bucket_id)"
    using tot [of "length ps"] len_ps by simp
  have un: "get_events db bucket_id l None None = event_parser_from (map row_of ps)"
    if "\<not> (l \<noteq> 0 \<and> l > - 1)" for l
    using that unfolding get_events_def Let_def query_range_rows ps_def by auto
  have lim: "get_events db bucket_id l None None = event_parser_from (map row_of (take (nat l) ps))"
    if "0 < l" for l
    using that unfolding get_events_def Let_def query_range_rows ps_def by auto
  show ?thesis using all tot [of "nat K"] un [of 0] un [of "- 1"] lim [of K]
    by auto
qed

text \<open>The witness: the bucket with three points and the limit 2.\<close>

theorem get_events_limit_witness:
  "list_all wf_point (ex_db2 ''b'') \<and> (0::int) < 2 \<and>
   (\<exists>events. get_events ex_db2 ''b'' 2 None None = Inr events \<and>
      length events = min (length (ex_db2 ''b'')) (nat 2))"
  using get_events_limit [of ex_db2 "''b''" 2] ex_db2_wf
  by (simp add: list_all_iff)

text \<open>
  The claim as stated promises \<open>min N 0 = 0\<close> events for the limit 0. The bucket with
  the dummy event alone holds one point, and the limit 0 returns it: the condition
  \<^verbatim>\<open>if limit and limit > -1\<close> adds no limit clause for 0.
\<close>

theorem get_events_limit_zero_counterexample:
  "length (ex_db0 ''b'') = 1 \<and>
   get_events ex_db0 ''b'' 0 None None =
     Inr [\<lparr>id_ev = PInt 0, timestamp = 0, duration = 0, data = []\<rparr>] \<and>
   min (length (ex_db0 ''b'')) (nat 0) = 0"
proof -
  have "get_events ex_db0 ''b'' 0 None None =
      Inr [\<lparr>id_ev = PInt 0, timestamp = 0, duration = 0, data = []\<rparr>]"
    by code_simp
  then show ?thesis by (simp add: ex_db0_def)
qed

text \<open>
  C3. \<^verbatim>\<open>get_eventcount\<close> should count only the events within the given time bounds, as
  \<^verbatim>\<open>get_events\<close> filters them. The code does not: its query text never mentions the
  bounds. With the start time 1500, the bucket of three points (times 0, 1000, 2000; the
  last two with an id) has one event in range, which \<^verbatim>\<open>get_events\<close> returns, and the
  count is 2.
\<close>

theorem get_eventcount_ignores_bounds:
  "get_eventcount ex_db2 ''b'' (Some 1500) None = Inr (PInt 2) \<and>
   get_events ex_db2 ''b'' (- 1) (Some 1500) None = Inr [ex_decoded_b]"
proof -
  have "get_eventcount ex_db2 ''b'' (Some 1500) None = Inr (PInt 2)" by code_simp
  moreover have "get_events ex_db2 ''b'' (- 1) (Some 1500) None = Inr [ex_decoded_b]"
    by code_simp
  ultimately show ?thesis by simp
qed

text \<open>
  C4. \<^verbatim>\<open>insert_many\<close> should encode every event and write all points in one bulk
  write. The code does not: for every list with at least one event the first pass of
  the loop raises \<^verbatim>\<open>ValueError\<close>, because it unpacks the four-key dict that
  \<^verbatim>\<open>_event_parser_to\<close> returns into two names, and nothing is written.
\<close>

theorem insert_many_raises:
  "insert_many db bucket_id (event # events) = Inl ValueError"
  by (simp add: insert_many_def point_keys_def unpack2_def)

text \<open>
  C5, as amended. For every event whose timestamp is a \<^verbatim>\<open>datetime\<close>, whose duration is
  not negative and below \<open>2 ^ 33\<close> seconds (8589934592000000 microseconds, about 272
  years), and whose attribute names are all plain (not empty, not beginning with an
  underscore, not \<^verbatim>\<open>time\<close> or \<^verbatim>\<open>duration\<close>), decoding the record of the encoded point
  gives one event with the same timestamp and exactly the same duration, in which every
  attribute with a true value is reproduced and every attribute with a false value is
  absent. This holds in particular for a non-empty attribute bag and a positive
  duration. Below \<open>2 ^ 33\<close> seconds the double that \<^verbatim>\<open>total_seconds\<close> returns is within
  half a microsecond of the duration, and \<^verbatim>\<open>timedelta(seconds=...)\<close> rounds it back.
\<close>

theorem codec_roundtrip:
  assumes vt: "valid_datetime (timestamp E)"
    and d0: "0 \<le> duration E" and dmax: "duration E < 8589934592000000"
    and keys: "\<forall>k \<in> set (dict_keys (data E)). plain_key k"
  shows "\<exists>E'. event_parser_from [row_of (event_parser_to b E)] = Inr [E'] \<and>
      timestamp E' = timestamp E \<and> duration E' = duration E \<and>
      (\<forall>k v. map_of (data E) k = Some v \<longrightarrow>
         map_of (data E') k = (if truthy v then Some v else None))"
proof -
  let ?p = "event_parser_to b E"
  let ?r = "row_of ?p"
  have nodur: "map_of (data E) ''duration'' = None"
    using keys in_keys_iff [of "''duration''" "data E"] by (auto simp: plain_key_def)
  have t: "dict_get ?r ''time'' = Inr (PInt (timestamp E))"
    by (simp add: dict_get_def map_of_row_of parser_to_time)
  have "map_of ?r ''duration'' = map_of (pfields ?p) ''duration''"
    by (rule row_lookup_plain) simp_all
  then have d: "dict_get ?r ''duration'' = Inr (total_seconds (duration E))"
    by (simp add: dict_get_def parser_to_fields nodur)
  have nonempty: "[] \<notin> set (dict_keys ?r)"
  proof
    assume "[] \<in> set (dict_keys ?r)"
    then have "[] \<in> fst ` set ?r" by (simp add: dict_keys_def)
    then have "[] \<in> fst ` set (pfields ?p) \<or> [] \<in> fst ` set (tags ?p)"
      by (simp add: keys_row_of)
    then show False
    proof
      assume "[] \<in> fst ` set (pfields ?p)"
      with parser_to_field_keys [of b E] have "[] \<in> set (dict_keys (data E))" by auto
      with keys show False by (auto simp: plain_key_def)
    next
      assume "[] \<in> fst ` set (tags ?p)"
      from parser_to_tag_keys [OF this] show False by simp
    qed
  qed
  have "set (dict_keys ?r) \<subseteq> fst ` set ?r" by (simp add: dict_keys_def)
  from from_loop_total [OF nonempty this]
  obtain dat where dat: "from_loop ?r (dict_keys ?r) [] = Inr dat" by blast
  let ?E' = "\<lparr>id_ev = PInt (timestamp E), timestamp = timestamp E, duration = duration E, data = dat\<rparr>"
  have one: "from_one ?r = Inr ?E'"
    by (rule from_one_intro [OF t _ vt d timedelta_roundtrip [OF d0 dmax] dat]) simp
  have attrs: "map_of dat k = (if truthy v then Some v else None)"
    if kv: "map_of (data E) k = Some v" for k v
  proof -
    from kv have "k \<in> set (dict_keys (data E))" by (simp add: in_keys_iff)
    with keys have pk: "plain_key k" by blast
    then have "map_of ?r k = map_of (pfields ?p) k"
      by (intro row_lookup_plain) (simp_all add: plain_key_def)
    with kv have rk: "map_of ?r k = Some v" by (simp add: parser_to_fields)
    then have ink: "k \<in> set (dict_keys ?r)" by (simp add: in_keys_iff)
    have "map_of dat k = (if k \<in> set (dict_keys ?r) \<and> copied ?r k then map_of ?r k else map_of [] k)"
      by (rule from_loop_Inr [OF dat])
    with rk ink pk show ?thesis by (simp add: copied_def plain_key_def)
  qed
  from one have "event_parser_from [?r] = Inr [?E']" by simp
  with attrs show ?thesis by (intro exI [of _ ?E']) simp
qed

text \<open>The witness: the event \<open>ex_a\<close>, one second long, with the attribute \<^verbatim>\<open>label\<close>.\<close>

theorem codec_roundtrip_witness:
  "valid_datetime (timestamp ex_a) \<and> 0 < duration ex_a \<and> duration ex_a < 8589934592000000 \<and>
   list_all plain_key (dict_keys (data ex_a)) \<and> data ex_a \<noteq> [] \<and>
   (\<exists>E'. event_parser_from [row_of (event_parser_to ''b'' ex_a)] = Inr [E'] \<and>
      duration E' = 1000000 \<and> map_of (data E') ''label'' = Some (PStr ''test1''))"
proof -
  have vt: "valid_datetime (timestamp ex_a)"
    by (simp add: ex_a_def valid_datetime_def datetime_min_def datetime_max_def)
  have d0: "0 \<le> duration ex_a" and dmax: "duration ex_a < 8589934592000000"
    by (simp_all add: ex_a_def)
  have keys: "\<forall>k \<in> set (dict_keys (data ex_a)). plain_key k"
    using ex_a_plain by (simp add: list_all_iff)
  from codec_roundtrip [OF vt d0 dmax keys, of "''b''"] obtain E' where
    "event_parser_from [row_of (event_parser_to ''b'' ex_a)] = Inr [E']"
    "duration E' = duration ex_a"
    "\<forall>k v. map_of (data ex_a) k = Some v \<longrightarrow>
       map_of (data E') k = (if truthy v then Some v else None)"
    by blast
  then have "event_parser_from [row_of (event_parser_to ''b'' ex_a)] = Inr [E'] \<and>
      duration E' = 1000000 \<and> map_of (data E') ''label'' = Some (PStr ''test1'')"
    by (simp add: ex_a_def)
  with vt ex_a_plain show ?thesis by (auto simp: ex_a_def)
qed

text \<open>
  The claim as stated covers every event with a non-empty attribute bag and a positive
  duration, and fails in both of its parts. The event \<open>ex_underscore\<close> is such an
  event, its attribute \<^verbatim>\<open>_x\<close> has the true value \<^verbatim>\<open>'v'\<close>, and the decoded event has no
  attribute at all: the decoder skips every key that begins with an underscore. The
  event \<open>ex_long\<close> is such an event too, and its duration of 9504000000000001
  microseconds comes back as 9504000000000002: the double nearest to its seconds is
  9504000000 + 2 ^ - 19.
\<close>

theorem codec_roundtrip_counterexample:
  "data ex_underscore \<noteq> [] \<and> 0 < duration ex_underscore \<and>
   map_of (data ex_underscore) ''_x'' = Some (PStr ''v'') \<and> truthy (PStr ''v'') \<and>
   event_parser_from [row_of (event_parser_to ''b'' ex_underscore)] =
     Inr [\<lparr>id_ev = PInt 1000, timestamp = 1000, duration = 1000000, data = []\<rparr>] \<and>
   data ex_long \<noteq> [] \<and> duration ex_long = 9504000000000001 \<and>
   total_seconds (duration ex_long) = PFloat (9504000000 + 1 / 524288) \<and>
   event_parser_from [row_of (event_parser_to ''b'' ex_long)] =
     Inr [\<lparr>id_ev = PInt 1000, timestamp = 1000, duration = 9504000000000002,
           data = [(''label'', PStr ''x'')]\<rparr>]"
proof -
  have "event_parser_from [row_of (event_parser_to ''b'' ex_underscore)] =
      Inr [\<lparr>id_ev = PInt 1000, timestamp = 1000, duration = 1000000, data = []\<rparr>]"
    by code_simp
  moreover have "total_seconds (duration ex_long) = PFloat (9504000000 + 1 / 524288)"
    by code_simp
  moreover have "event_parser_from [row_of (event_parser_to ''b'' ex_long)] =
      Inr [\<lparr>id_ev = PInt 1000, timestamp = 1000, duration = 9504000000000002,
            data = [(''label'', PStr ''x'')]\<rparr>]"
    by code_simp
  ultimately show ?thesis by (simp add: ex_underscore_def ex_long_def)
qed

text \<open>
  C6, as amended. When no metadata point is tagged with the bucket's id,
  \<^verbatim>\<open>get_metadata\<close> fails with \<^verbatim>\<open>StopIteration\<close>; when one or more are, it returns the
  record of the earliest of them, whatever their number.
\<close>

theorem get_metadata_first:
  "(\<not> (\<exists>p \<in> set (db ''metadata''). tagged bucket_id p) \<longrightarrow>
      get_metadata db bucket_id = Inl StopIteration) \<and>
   ((\<exists>p \<in> set (db ''metadata''). tagged bucket_id p) \<longrightarrow>
      (\<exists>q \<in> set (db ''metadata''). tagged bucket_id q \<and>
         (\<forall>p \<in> set (db ''metadata''). tagged bucket_id p \<longrightarrow> time q \<le> time p) \<and>
         get_metadata db bucket_id = Inr (row_of q)))"
proof -
  let ?ms = "filter (tagged bucket_id) (sort_key time (db ''metadata''))"
  have g: "get_metadata db bucket_id =
      (case ?ms of [] \<Rightarrow> Inl StopIteration | q # _ \<Rightarrow> Inr (row_of q))"
    by (simp add: get_metadata_def tagged_def [abs_def] split: list.splits)
  show ?thesis
  proof (cases ?ms)
    case Nil
    then have "\<not> (\<exists>p \<in> set (db ''metadata''). tagged bucket_id p)"
      by (auto simp: filter_empty_conv)
    with g Nil show ?thesis by simp
  next
    case (Cons q qs)
    from first_row [OF Cons] g Cons show ?thesis by auto
  qed
qed

text \<open>The witness: a backend with no metadata, and one with two points for \<^verbatim>\<open>b\<close>.\<close>

theorem get_metadata_first_witness:
  "get_metadata (\<lambda>_. []) ''b'' = Inl StopIteration \<and>
   (\<exists>q \<in> set (ex_md ''metadata''). tagged ''b'' q \<and> get_metadata ex_md ''b'' = Inr (row_of q))"
proof -
  have "tagged ''b'' ex_meta1" by (simp add: tagged_def ex_meta1_def)
  then have "\<exists>p \<in> set (ex_md ''metadata''). tagged ''b'' p" by (simp add: ex_md_def)
  with get_metadata_first [of "\<lambda>_. []" "''b''"] get_metadata_first [of ex_md "''b''"]
  show ?thesis by auto
qed

text \<open>
  The claim as stated promises \<^verbatim>\<open>NotFoundError\<close> for no record and \<^verbatim>\<open>IntegrityError\<close>
  for more than one. With no record the error is \<^verbatim>\<open>StopIteration\<close>; with the two
  records of \<open>ex_md\<close> the call returns the first and raises nothing.
\<close>

theorem get_metadata_counterexample:
  "get_metadata (\<lambda>_. []) ''b'' = Inl StopIteration \<and>
   length (filter (tagged ''b'') (ex_md ''metadata'')) = 2 \<and>
   get_metadata ex_md ''b'' = Inr (row_of ex_meta1)"
proof -
  have "get_metadata (\<lambda>_. []) ''b'' = Inl StopIteration" by (simp add: get_metadata_def)
  moreover have "length (filter (tagged ''b'') (ex_md ''metadata'')) = 2"
    by (simp add: ex_md_def tagged_def ex_meta1_def ex_meta2_def)
  moreover have "get_metadata ex_md ''b'' = Inr (row_of ex_meta1)"
    by (simp add: get_metadata_def ex_md_def ex_meta1_def ex_meta2_def)
  ultimately show ?thesis by simp
qed

text \<open>
  C7. When the bucket holds a point with a non-null \<^verbatim>\<open>id\<close> field, and \<open>p\<close> is the latest
  such point, \<^verbatim>\<open>_get_last_event_id\<close> returns the time key of \<open>p\<close>, whatever the value
  of its \<^verbatim>\<open>id\<close> field.
\<close>

theorem last_event_id_is_time_key:
  assumes "p \<in> set (db bucket_id)" "has_field ''id'' p"
    and "\<forall>q \<in> set (db bucket_id). has_field ''id'' q \<longrightarrow> time q \<le> time p"
  shows "get_last_event_id db bucket_id = Inr (PInt (time p))"
proof -
  let ?ps = "filter (has_field ''id'') (db bucket_id)"
  from assms have "p \<in> set ?ps" "\<forall>q \<in> set ?ps. time q \<le> time p" by auto
  from last_row [OF this] obtain q qs where
    "rev (sort_key time ?ps) = q # qs" "time q = time p" by blast
  then show ?thesis
    by (simp add: get_last_event_id_def dict_get_def)
qed

text \<open>
  The witness: in the bucket of three points the latest id is on the point at time
  2000, whose \<^verbatim>\<open>id\<close> field holds 1000; the call returns 2000.
\<close>

theorem last_event_id_is_time_key_witness:
  "ex_point_b \<in> set (ex_db2 ''b'') \<and> has_field ''id'' ex_point_b \<and>
   map_of (pfields ex_point_b) ''id'' = Some (PInt 1000) \<and>
   get_last_event_id ex_db2 ''b'' = Inr (PInt 2000)"
  using last_event_id_is_time_key [of ex_point_b ex_db2 "''b''"]
  by (simp add: ex_defs has_field_def)

text \<open>
  C8. Whatever the limit and the time bounds, the events \<^verbatim>\<open>get_events\<close> returns are in
  non-increasing order of timestamp.
\<close>

theorem get_events_descending:
  assumes "get_events db bucket_id limit starttime endtime = Inr events"
  shows "sorted_wrt (\<lambda>a b. timestamp b \<le> timestamp a) events"
proof -
  define ps where "ps = rev (sort_key time (filter (in_range starttime endtime) (db bucket_id)))"
  define qs where "qs = (if limit \<noteq> 0 \<and> limit > - 1 then take (nat limit) ps else ps)"
  have s: "(case starttime of None \<Rightarrow> None | Some s \<Rightarrow> Some s) = starttime"
    and e: "(case endtime of None \<Rightarrow> None | Some e \<Rightarrow> Some e) = endtime"
    by (simp_all split: option.splits)
  from assms have "event_parser_from (map row_of qs) = Inr events"
    unfolding get_events_def Let_def s e query_range_rows qs_def ps_def
    by (auto split: if_splits)
  then have ts: "map timestamp events = map time qs" by (rule parser_from_rows_times)
  have "sorted_wrt (\<lambda>a b. b \<le> a) (map time ps)" unfolding ps_def by (rule desc_sorted)
  then have "sorted_wrt (\<lambda>a b. b \<le> a) (map time qs)"
    by (simp add: qs_def take_map [symmetric] sorted_wrt_take)
  with ts have "sorted_wrt (\<lambda>a b. b \<le> a) (map timestamp events)" by simp
  then show ?thesis by (simp add: sorted_wrt_map)
qed

text \<open>The witness: the two latest events of the bucket of three points.\<close>

theorem get_events_descending_witness:
  "get_events ex_db2 ''b'' 2 None None = Inr [ex_decoded_b, ex_decoded_a] \<and>
   sorted_wrt (\<lambda>a b. timestamp b \<le> timestamp a) [ex_decoded_b, ex_decoded_a]"
  using get_events_descending [OF ex_get_events_2] ex_get_events_2 by simp

text \<open>
  C9. Every event the decoder builds has as its id the raw value of the record's
  \<^verbatim>\<open>time\<close> key, and the record's \<^verbatim>\<open>id\<close> field, when present and true, is an attribute
  \<^verbatim>\<open>id\<close> of the event (and is left out when false).
\<close>

theorem decoded_id_is_time_key:
  assumes "event_parser_from records = Inr events"
  shows "length events = length records \<and>
    (\<forall>i < length records.
       dict_get (records ! i) ''time'' = Inr (id_ev (events ! i)) \<and>
       map_of (data (events ! i)) ''id'' =
         (case map_of (records ! i) ''id'' of
            None \<Rightarrow> None | Some v \<Rightarrow> if truthy v then Some v else None))"
proof -
  from parser_from_Inr [OF assms]
  have l: "list_all2 (\<lambda>r e. from_one r = Inr e) records events" .
  then have len: "length events = length records" by (simp add: list_all2_lengthD)
  have "\<forall>i < length records. from_one (records ! i) = Inr (events ! i)"
    using l by (simp add: list_all2_conv_all_nth)
  with len show ?thesis
    by (auto simp: from_one_Inr(1) from_one_id_field)
qed

text \<open>
  The witness: the record of the point at time 1000 whose \<^verbatim>\<open>id\<close> field is 1. The event
  has the id 1000 and the attribute \<^verbatim>\<open>id\<close> of 1.
\<close>

theorem decoded_id_is_time_key_witness:
  "event_parser_from [row_of ex_point_a] = Inr [ex_decoded_a] \<and>
   dict_get (row_of ex_point_a) ''time'' = Inr (id_ev ex_decoded_a) \<and>
   id_ev ex_decoded_a = PInt 1000 \<and>
   map_of (row_of ex_point_a) ''id'' = Some (PInt 1) \<and>
   map_of (data ex_decoded_a) ''id'' = Some (PInt 1)"
proof -
  have e: "event_parser_from [row_of ex_point_a] = Inr [ex_decoded_a]" by code_simp
  have r: "map_of (row_of ex_point_a) ''id'' = Some (PInt 1)"
    by (simp add: map_of_row_of ex_point_a_def)
  from decoded_id_is_time_key [OF e] r e show ?thesis
    by (simp add: ex_decoded_a_def)
qed

text \<open>
  C10. \<^verbatim>\<open>delete\<close> returns \<^verbatim>\<open>None\<close> for every bucket and event id, whether or not a
  record matched, and so never a bool.
\<close>

theorem delete_returns_None:
  "snd (delete db bucket_id event_id) = PNone \<and>
   (\<forall>b. snd (delete db bucket_id event_id) \<noteq> PBool b)"
  by (simp add: delete_def)

section \<open>Further properties\<close>

lemma parser_to_measurement: "measurement (event_parser_to b E) = b"
  by (simp add: event_parser_to_def Let_def to_loop_measurement)

text \<open>
  X1. The result of \<^verbatim>\<open>get_eventcount\<close> is the same for every pair of time bounds: the
  two arguments never reach the query.
\<close>

theorem get_eventcount_same_for_all_bounds:
  "get_eventcount db bucket_id starttime endtime = get_eventcount db bucket_id None None"
  by (simp add: get_eventcount_def)

text \<open>
  X2. Whenever \<^verbatim>\<open>replace_last\<close> returns and the timestamp of its event is not the time
  of a point the bucket already holds, the bucket has one point more afterwards: the
  write does not replace the last event.
\<close>

theorem replace_last_new_timestamp_adds_point:
  assumes "replace_last db bucket_id event = Inr (db', event')"
    and "timestamp event \<notin> time ` set (db bucket_id)"
  shows "length (db' bucket_id) = length (db bucket_id) + 1"
proof -
  from assms(1) obtain i where
    "insert_one db bucket_id (event\<lparr>id_ev := i\<rparr>) = Inr (db', event')"
    by (auto simp: replace_last_def bind_err_Inr_iff)
  then have db': "db' = write_points db [event_parser_to bucket_id (event\<lparr>id_ev := i\<rparr>)]"
    by (auto simp: insert_one_def Let_def bind_err_Inr_iff)
  have "filter (\<lambda>q. time q \<noteq> timestamp event) (db bucket_id) = db bucket_id"
    using assms(2) by (force simp: filter_id_conv)
  then show ?thesis
    by (simp add: db' write_points_def write_point_def parser_to_measurement parser_to_time)
qed

text \<open>The witness: the second example event, written into the bucket of two points.\<close>

theorem replace_last_new_timestamp_adds_point_witness:
  "replace_last ex_db1 ''b'' ex_b = Inr (ex_db2, ex_b\<lparr>id_ev := PInt 2000\<rparr>) \<and>
   length (ex_db2 ''b'') = length (ex_db1 ''b'') + 1"
  using replace_last_new_timestamp_adds_point [OF ex_replace_last_b] ex_replace_last_b
  by (simp add: ex_defs)

end
